theory Spec2Isabelle
  imports Complex_Main "HOL-Library.AList"
begin

section \<open>Characters and strings of the Python runtime\<close>

text \<open>
  A Python \<open>str\<close> is modelled as a \<open>string\<close>, a list of 8-bit characters read as the
  code points 0 to 255 (ASCII and Latin-1).  The character classes below are the ones
  the Python runtime uses on that range: \<open>\w\<close> of the \<open>re\<close> module for \<open>str\<close> patterns,
  \<open>str.isspace\<close> (the separators of \<open>str.split()\<close>) and \<open>str.lower\<close>.
\<close>

definition ord :: "char \<Rightarrow> int" where
  "ord c = of_char c"

definition chr :: "int \<Rightarrow> char" where
  "chr n = char_of n"

definition is_digit :: "char \<Rightarrow> bool" where
  "is_digit c = (48 \<le> ord c \<and> ord c \<le> 57)"

definition is_ascii_lower :: "char \<Rightarrow> bool" where
  "is_ascii_lower c = (97 \<le> ord c \<and> ord c \<le> 122)"

definition is_ascii_upper :: "char \<Rightarrow> bool" where
  "is_ascii_upper c = (65 \<le> ord c \<and> ord c \<le> 90)"

definition is_latin1_upper :: "char \<Rightarrow> bool" where
  "is_latin1_upper c = (192 \<le> ord c \<and> ord c \<le> 222 \<and> ord c \<noteq> 215)"

definition is_latin1_alnum :: "char \<Rightarrow> bool" where
  "is_latin1_alnum c =
     (ord c \<in> {170, 178, 179, 181, 185, 186, 188, 189, 190}
      \<or> (192 \<le> ord c \<and> ord c \<noteq> 215 \<and> ord c \<noteq> 247))"

text \<open>\<open>\w\<close>: alphanumeric characters and the underscore.\<close>

definition is_word :: "char \<Rightarrow> bool" where
  "is_word c =
     (is_digit c \<or> is_ascii_upper c \<or> ord c = 95 \<or> is_ascii_lower c \<or> is_latin1_alnum c)"

text \<open>\<open>str.isspace\<close>: tab to carriage return, the four separators 28 to 31, space,
  NEL (133) and the no-break space (160).\<close>

definition py_isspace :: "char \<Rightarrow> bool" where
  "py_isspace c = ((9 \<le> ord c \<and> ord c \<le> 13) \<or> (28 \<le> ord c \<and> ord c \<le> 32)
                   \<or> ord c = 133 \<or> ord c = 160)"

text \<open>\<open>str.lower\<close> on one character.\<close>

definition lower_char :: "char \<Rightarrow> char" where
  "lower_char c = (if is_ascii_upper c \<or> is_latin1_upper c then chr (ord c + 32) else c)"

definition py_lower :: "string \<Rightarrow> string" where
  "py_lower s = map lower_char s"

text \<open>\<open>str.split()\<close> without arguments: the maximal runs of non-space characters.  The
  first argument is the run read so far.\<close>

fun split_loop :: "string \<Rightarrow> string \<Rightarrow> string list" where
  "split_loop w [] = (if w = [] then [] else [w])"
| "split_loop w (c # cs) =
     (if py_isspace c then (if w = [] then split_loop [] cs else w # split_loop [] cs)
      else split_loop (w @ [c]) cs)"

definition py_split :: "string \<Rightarrow> string list" where
  "py_split s = split_loop [] s"

text \<open>\<open>sep.join(words)\<close>.\<close>

fun py_join :: "string \<Rightarrow> string list \<Rightarrow> string" where
  "py_join sep [] = []"
| "py_join sep [w] = w"
| "py_join sep (w # ws) = w @ sep @ py_join sep ws"

section \<open>The name normalizer (bootstrap\_sec\_data.py)\<close>

text \<open>
  \<^verbatim>\<open>
  def normalize_name(name: str) -> str:
      name = re.sub(r'\b(incorporated|inc|corp|corporation|llc|ltd|plc|group|company)\b',
                    '', name, flags=re.I)
      name = re.sub(r'[^a-z0-9 ]', '', name.lower())
      return ' '.join(name.split())
  \<close>
  The first substitution is modelled as the regular-expression engine runs it: the
  subject is scanned from left to right; at each position the pattern is tried, the
  alternatives in the order they are written, each followed by the closing \<open>\b\<close>; a
  match is deleted and the scan resumes behind it, otherwise the character is copied.
\<close>

definition suffix_tokens :: "string list" where
  "suffix_tokens = [''incorporated'', ''inc'', ''corp'', ''corporation'', ''llc'', ''ltd'',
                    ''plc'', ''group'', ''company'']"

text \<open>A literal under \<open>re.I\<close>: every pattern character (lower case here) is compared
  with the lower-cased subject character.  The result is the last character consumed
  and the rest of the subject.\<close>

fun match_literal :: "char option \<Rightarrow> string \<Rightarrow> string \<Rightarrow> (char option \<times> string) option" where
  "match_literal prev [] s = Some (prev, s)"
| "match_literal prev (p # ps) [] = None"
| "match_literal prev (p # ps) (c # cs) =
     (if lower_char c = p then match_literal (Some c) ps cs else None)"

text \<open>\<open>\b\<close>: the character before the position and the character at the position
  differ in being word characters; outside the subject counts as a non-word character.\<close>

definition prev_is_word :: "char option \<Rightarrow> bool" where
  "prev_is_word prev = (case prev of None \<Rightarrow> False | Some c \<Rightarrow> is_word c)"

definition at_boundary :: "char option \<Rightarrow> string \<Rightarrow> bool" where
  "at_boundary prev s = (prev_is_word prev \<noteq> (case s of [] \<Rightarrow> False | c # _ \<Rightarrow> is_word c))"

text \<open>One alternative followed by the closing \<open>\b\<close>.\<close>

definition try_literal :: "char option \<Rightarrow> string \<Rightarrow> string \<Rightarrow> (char option \<times> string) option" where
  "try_literal prev t s =
     (case match_literal prev t s of
        None \<Rightarrow> None
      | Some (prev', rest) \<Rightarrow> if at_boundary prev' rest then Some (prev', rest) else None)"

text \<open>The group of alternatives followed by \<open>\b\<close>: the first alternative that matches and
  ends at a boundary wins; an alternative that matches but does not end at a boundary is
  given up for the next one (backtracking).\<close>

fun match_alternatives :: "char option \<Rightarrow> string list \<Rightarrow> string \<Rightarrow> (char option \<times> string) option" where
  "match_alternatives prev [] s = None"
| "match_alternatives prev (t # ts) s =
     (case try_literal prev t s of
        Some found \<Rightarrow> Some found
      | None \<Rightarrow> match_alternatives prev ts s)"

definition match_suffix_pattern :: "char option \<Rightarrow> string \<Rightarrow> (char option \<times> string) option" where
  "match_suffix_pattern prev s =
     (if at_boundary prev s then match_alternatives prev suffix_tokens s else None)"

function re_sub_suffixes :: "char option \<Rightarrow> string \<Rightarrow> string" where
  "re_sub_suffixes prev [] = []"
| "re_sub_suffixes prev (c # cs) =
     (case match_suffix_pattern prev (c # cs) of
        Some (prev', rest) \<Rightarrow> re_sub_suffixes prev' rest
      | None \<Rightarrow> c # re_sub_suffixes (Some c) cs)"
  by pat_completeness auto
termination
proof (relation "measure (\<lambda>(prev, s). length s)")
  show "wf (measure (\<lambda>(prev :: char option, s :: string). length s))"
    by simp
next
  fix prev :: "char option" and c :: char and cs :: string
  show "((Some c, cs), (prev, c # cs)) \<in> measure (\<lambda>(prev, s). length s)"
    by simp
next
  fix prev prev' :: "char option" and c :: char and cs rest :: string and x :: "char option \<times> string"
  assume m: "match_suffix_pattern prev (c # cs) = Some x" and x: "(prev', rest) = x"
  have lit: "match_literal q t s = Some (q', r) \<Longrightarrow> length s = length t + length r"
    for q q' t s r
    by (induction q t s rule: match_literal.induct) (auto split: if_splits)
  have alt: "match_alternatives q ts s = Some (q', r) \<Longrightarrow>
               \<exists>t \<in> set ts. length s = length t + length r" for q q' ts s r
    by (induction ts) (auto simp: try_literal_def split: option.splits if_splits dest: lit)
  from m x have "match_alternatives prev suffix_tokens (c # cs) = Some (prev', rest)"
    by (auto simp: match_suffix_pattern_def split: if_splits)
  from alt [OF this] have "length rest < length (c # cs)"
    by (auto simp: suffix_tokens_def)
  then show "((prev', rest), (prev, c # cs)) \<in> measure (\<lambda>(prev, s). length s)"
    by simp
qed

text \<open>The character class \<open>[a-z0-9 ]\<close>, and the second substitution, which deletes
  every character outside it.\<close>

definition in_az09_space :: "char \<Rightarrow> bool" where
  "in_az09_space c = (is_ascii_lower c \<or> is_digit c \<or> ord c = 32)"

definition re_sub_other :: "string \<Rightarrow> string" where
  "re_sub_other s = filter in_az09_space s"

definition normalize_name :: "string \<Rightarrow> string" where
  "normalize_name name =
     (let name1 = re_sub_suffixes None name;
          name2 = re_sub_other (py_lower name1)
      in py_join '' '' (py_split name2))"

subsection \<open>The reference pipeline of the specification\<close>

text \<open>
  The second definition of the normalizer follows the words of the specification, step by
  step: (a) remove the whole words that are, up to case, one of the nine suffix tokens, a
  word being a maximal run of word characters; (b) lower-case; (c) delete every character
  that is not a lower-case ASCII letter, a digit or a space; (d) collapse runs of
  whitespace to single spaces and trim.
\<close>

function remove_suffix_words :: "string \<Rightarrow> string" where
  "remove_suffix_words [] = []"
| "remove_suffix_words (c # cs) =
     (if is_word c
      then (if py_lower (c # takeWhile is_word cs) \<in> set suffix_tokens then []
            else c # takeWhile is_word cs)
           @ remove_suffix_words (dropWhile is_word cs)
      else c # remove_suffix_words cs)"
  by pat_completeness auto
termination
  by (relation "measure length") (auto simp: less_Suc_eq_le length_dropWhile_le)

function collapse_whitespace :: "string \<Rightarrow> string" where
  "collapse_whitespace [] = []"
| "collapse_whitespace (c # cs) =
     (if py_isspace c then CHR '' '' # collapse_whitespace (dropWhile py_isspace cs)
      else c # collapse_whitespace cs)"
  by pat_completeness auto
termination
  by (relation "measure length") (auto simp: less_Suc_eq_le length_dropWhile_le)

definition rstrip :: "string \<Rightarrow> string" where
  "rstrip s = rev (dropWhile py_isspace (rev s))"



text \<open>A word of a normalized name: not empty, of lower-case ASCII letters and digits.\<close>

definition clean_word :: "string \<Rightarrow> bool" where
  "clean_word w = (w \<noteq> [] \<and> (\<forall>c \<in> set w. is_ascii_lower c \<or> is_digit c))"

section \<open>Entity resolution\<close>

subsection \<open>Values of the Python runtime: \<open>str(int)\<close>, \<open>str.zfill\<close>, \<open>in\<close>\<close>

fun str_nat :: "nat \<Rightarrow> string" where
  "str_nat n =
     (if n < 10 then [chr (48 + int n)] else str_nat (n div 10) @ [chr (48 + int (n mod 10))])"

declare str_nat.simps [simp del]

definition py_str :: "int \<Rightarrow> string" where
  "py_str i = (if i < 0 then CHR ''-'' # str_nat (nat (- i)) else str_nat (nat i))"

text \<open>\<open>s.zfill(width)\<close>: zeros are inserted on the left, behind a leading sign; a string
  of the width or longer is returned as it is.\<close>

definition zfill :: "nat \<Rightarrow> string \<Rightarrow> string" where
  "zfill width s =
     (if width \<le> length s then s
      else (case s of
              [] \<Rightarrow> replicate width (CHR ''0'')
            | c # cs \<Rightarrow>
                if c = CHR ''+'' \<or> c = CHR ''-''
                then c # replicate (width - length s) (CHR ''0'') @ cs
                else replicate (width - length s) (CHR ''0'') @ s))"

fun startswith :: "string \<Rightarrow> string \<Rightarrow> bool" where
  "startswith s [] = True"
| "startswith [] (p # ps) = False"
| "startswith (c # cs) (p # ps) = (c = p \<and> startswith cs ps)"

text \<open>\<open>sub in s\<close> on strings.\<close>

fun py_in :: "string \<Rightarrow> string \<Rightarrow> bool" where
  "py_in sub [] = (sub = [])"
| "py_in sub (c # cs) = (startswith (c # cs) sub \<or> py_in sub cs)"

subsection \<open>The registry and the errors\<close>

text \<open>
  The registry is the dictionary of the SEC file \<open>company_tickers.json\<close>; an entry is
  \<open>{"cik_str": 320193, "ticker": "AAPL", "title": "Apple Inc."}\<close>.  A dictionary is
  kept as the list of its items in iteration order; \<open>mapping[k]\<close> is \<open>map_of\<close>.
\<close>

record entry =
  cik_str :: int
  title :: string

type_synonym registry = "(string \<times> entry) list"

text \<open>
  The exceptions the modelled code raises.  \<open>NotFound score\<close> is the \<open>ValueError\<close> of
  \<open>get_cik\<close>, whose message carries the best fuzzy score; \<open>TypeError\<close> is the failed
  unpacking of \<open>None\<close>; \<open>ValueError\<close> is the one of \<open>int()\<close>.
\<close>

datatype error = NotFound rat | TypeError | KeyError string | IndexError | ValueError

subsection \<open>The fuzzy-matching library\<close>

text \<open>
  The scorer \<open>fuzz.token_sort_ratio\<close> and \<open>process.extractOne\<close> belong to the library
  rapidfuzz, which is not part of the repository.  The resolution routines take the scorer
  as a parameter; a score is a rational number (every finite float is one).
\<close>

type_synonym scorer = "string \<Rightarrow> string \<Rightarrow> rat"

text \<open>
  Modelled from the spec: \<open>process.extractOne(query, choices, scorer=...)\<close> on a list of
  choices, after section 4.2, step 3: the single candidate with the maximum score, the
  first candidate met in iteration order winning a tie.  The result is the triple of the
  choice, its score and its position in the list (the daily update names it \<open>idx\<close>), or
  \<open>None\<close> when the list is empty.
\<close>

fun extract_loop ::
  "scorer \<Rightarrow> string \<Rightarrow> nat \<Rightarrow> string list \<Rightarrow> (string \<times> rat \<times> nat) option
     \<Rightarrow> (string \<times> rat \<times> nat) option" where
  "extract_loop sc query i [] result = result"
| "extract_loop sc query i (choice # choices) result =
     (let score = sc query choice in
      extract_loop sc query (Suc i) choices
        (case result of
           None \<Rightarrow> Some (choice, score, i)
         | Some (b, best_score, k) \<Rightarrow>
             if best_score < score then Some (choice, score, i) else result))"

definition extractOne :: "scorer \<Rightarrow> string \<Rightarrow> string list \<Rightarrow> (string \<times> rat \<times> nat) option" where
  "extractOne sc query choices = extract_loop sc query 0 choices None"

text \<open>
  Modelled from the spec: \<open>fuzz.token_sort_ratio\<close>, after section 4.2, step 2: the two
  strings are split on whitespace, their tokens sorted and joined again with single
  spaces, and the joined strings compared by the edit-distance ratio scaled to 0..100,
  \<open>100 * (1 - d / (len1 + len2))\<close>, where \<open>d\<close> is the insertion-deletion distance
  \<open>len1 + len2 - 2 * lcs\<close>.  It is used to run the resolution on concrete inputs.
\<close>

fun str_le :: "string \<Rightarrow> string \<Rightarrow> bool" where
  "str_le [] t = True"
| "str_le (c # cs) [] = False"
| "str_le (c # cs) (d # ds) = (ord c < ord d \<or> (ord c = ord d \<and> str_le cs ds))"

fun insert_sorted :: "string \<Rightarrow> string list \<Rightarrow> string list" where
  "insert_sorted w [] = [w]"
| "insert_sorted w (v # vs) = (if str_le w v then w # v # vs else v # insert_sorted w vs)"

definition sorted_tokens :: "string list \<Rightarrow> string list" where
  "sorted_tokens ws = foldr insert_sorted ws []"

text \<open>The length of a longest common subsequence, row by row: \<open>row\<close> is the row for
  the characters read so far, \<open>left\<close> the cell just written.\<close>

fun lcs_row :: "char \<Rightarrow> string \<Rightarrow> nat list \<Rightarrow> nat \<Rightarrow> nat list" where
  "lcs_row c (d # ds) (diag # up # row) left =
     (let cell = (if c = d then Suc diag else max up left)
      in cell # lcs_row c ds (up # row) cell)"
| "lcs_row c ds row left = []"

definition lcs_length :: "string \<Rightarrow> string \<Rightarrow> nat" where
  "lcs_length s t =
     last (foldl (\<lambda>row c. 0 # lcs_row c t row 0) (replicate (Suc (length t)) 0) s)"

definition ratio :: "string \<Rightarrow> string \<Rightarrow> rat" where
  "ratio s1 s2 =
     (let lensum = length s1 + length s2;
          dist = lensum - 2 * lcs_length s1 s2
      in if lensum = 0 then 100 else 100 * (1 - of_nat dist / of_nat lensum))"

definition token_sort_ratio :: scorer where
  "token_sort_ratio s1 s2 =
     ratio (py_join '' '' (sorted_tokens (py_split s1)))
           (py_join '' '' (sorted_tokens (py_split s2)))"

subsection \<open>Resolution in the bootstrap script (bootstrap\_sec\_data.py)\<close>

text \<open>
  \<^verbatim>\<open>
  def get_cik(company_name: str, mapping: dict) -> str:
      target = normalize_name(company_name)
      choices = [(normalize_name(v["title"]), k) for k, v in mapping.items()]
      best, score, key = process.extractOne(
          target, [c[0] for c in choices], scorer=fuzz.token_sort_ratio)
      if score >= 85:
          cik_str = str(mapping[str(key)]["cik_str"]).zfill(10)
          return cik_str
      for v in mapping.values():
          if target in normalize_name(v["title"]):
              cik_str = str(v["cik_str"]).zfill(10)
              return cik_str
      raise ValueError(f"CIK not found (best fuzzy score {score}) for {company_name}")
  \<close>
  \<open>extractOne\<close> is given a list, so \<open>key\<close> is the position of the best choice in that
  list, and \<open>mapping[str(key)]\<close> looks the decimal numeral of the position up among the
  keys of the registry.
\<close>

definition get_cik :: "scorer \<Rightarrow> string \<Rightarrow> registry \<Rightarrow> error + string" where
  "get_cik sc company_name mapping =
     (let target = normalize_name company_name;
          choices = map (\<lambda>(k, v). (normalize_name (title v), k)) mapping
      in case extractOne sc target (map fst choices) of
           None \<Rightarrow> Inl TypeError
         | Some (best, score, key) \<Rightarrow>
             if 85 \<le> score
             then (case map_of mapping (str_nat key) of
                     None \<Rightarrow> Inl (KeyError (str_nat key))
                   | Some v \<Rightarrow> Inr (zfill 10 (py_str (cik_str v))))
             else (case find (\<lambda>v. py_in target (normalize_name (title v))) (map snd mapping) of
                     Some v \<Rightarrow> Inr (zfill 10 (py_str (cik_str v)))
                   | None \<Rightarrow> Inl (NotFound score)))"

subsection \<open>Resolution in the daily update (daily\_update\_sec\_data.py)\<close>

text \<open>
  \<^verbatim>\<open>
  def get_cik(ticker_or_name: str) -> str:
      r = requests.get(...); r.raise_for_status()
      mapping = r.json()
      for v in mapping.values():
          if v["title"].lower() == ticker_or_name.lower():
              return str(v["cik_str"]).zfill(10)
      titles = [v["title"] for v in mapping.values()]
      best, score, idx = process.extractOne(
          ticker_or_name, titles, scorer=fuzz.token_sort_ratio)
      if score >= 85:
          match = [v for v in mapping.values() if v["title"] == best][0]
          return str(match["cik_str"]).zfill(10)
      raise ValueError(f"CIK not found (best fuzzy score {score}) for {ticker_or_name}")
  \<close>
  The registry the request returns is the second argument of the model.
\<close>

definition daily_get_cik :: "scorer \<Rightarrow> string \<Rightarrow> registry \<Rightarrow> error + string" where
  "daily_get_cik sc ticker_or_name mapping =
     (case find (\<lambda>v. py_lower (title v) = py_lower ticker_or_name) (map snd mapping) of
        Some v \<Rightarrow> Inr (zfill 10 (py_str (cik_str v)))
      | None \<Rightarrow>
          (let titles = map (\<lambda>v. title v) (map snd mapping)
           in case extractOne sc ticker_or_name titles of
                None \<Rightarrow> Inl TypeError
              | Some (best, score, idx) \<Rightarrow>
                  if 85 \<le> score
                  then (case filter (\<lambda>v. title v = best) (map snd mapping) of
                          [] \<Rightarrow> Inl IndexError
                        | match # _ \<Rightarrow> Inr (zfill 10 (py_str (cik_str match))))
                  else Inl (NotFound score)))"

section \<open>Financial facts\<close>

subsection \<open>The payload of the facts API\<close>

text \<open>
  The response of \<open>/api/xbrl/companyfacts\<close> is a JSON object; its member \<open>facts\<close> maps a
  taxonomy (\<open>us-gaap\<close>) to its concepts, a concept has a member \<open>units\<close> that maps a unit
  (\<open>USD\<close>) to a list of items, and an item has an end date \<open>end\<close> and a value
  \<open>val\<close>.  A member that may be missing is an option; the values are of any type.
\<close>

record 'v fact_item =
  item_end :: string
  item_val :: 'v

record 'v concept =
  units :: "(string \<rightharpoonup> 'v fact_item list) option"

type_synonym 'v taxonomy = "string \<rightharpoonup> 'v concept"

record 'v response =
  facts :: "(string \<rightharpoonup> 'v taxonomy) option"

text \<open>A stored observation \<open>{"year": ..., "val": ...}\<close>.\<close>

record 'v observation =
  year :: int
  val :: 'v

text \<open>\<open>facts.get(name, {}).get("units", {}).get("USD", [])\<close>\<close>

definition usd_items :: "'v taxonomy \<Rightarrow> string \<Rightarrow> 'v fact_item list" where
  "usd_items gaap name =
     (case gaap name of
        None \<Rightarrow> []
      | Some c \<Rightarrow>
          (case units c of
             None \<Rightarrow> []
           | Some u \<Rightarrow> (case u ''USD'' of None \<Rightarrow> [] | Some items \<Rightarrow> items)))"

text \<open>
  \<open>int(s)\<close> on a string, base ten: whitespace around the numeral is skipped, a sign may
  lead, and single underscores may separate digits; anything else raises \<open>ValueError\<close>.
\<close>

definition int_space :: "char \<Rightarrow> bool" where
  "int_space c = ((9 \<le> ord c \<and> ord c \<le> 13) \<or> ord c = 32 \<or> ord c = 133 \<or> ord c = 160)"

fun parse_digits :: "nat \<Rightarrow> string \<Rightarrow> nat option" where
  "parse_digits acc [] = Some acc"
| "parse_digits acc [c] = (if is_digit c then Some (10 * acc + nat (ord c - 48)) else None)"
| "parse_digits acc (c # d # ds) =
     (if is_digit c then parse_digits (10 * acc + nat (ord c - 48)) (d # ds)
      else if ord c = 95 \<and> is_digit d then parse_digits acc (d # ds)
      else None)"

definition py_int :: "string \<Rightarrow> error + int" where
  "py_int s =
     (let t = rev (dropWhile int_space (rev (dropWhile int_space s)));
          negative = (t \<noteq> [] \<and> hd t = CHR ''-'');
          body = (if t \<noteq> [] \<and> (hd t = CHR ''-'' \<or> hd t = CHR ''+'') then tl t else t)
      in case body of
           [] \<Rightarrow> Inl ValueError
         | d # ds \<Rightarrow>
             if is_digit d
             then (case parse_digits 0 (d # ds) of
                     None \<Rightarrow> Inl ValueError
                   | Some n \<Rightarrow> Inr (if negative then - int n else int n))
             else Inl ValueError)"

text \<open>\<open>int(i["end"][:4])\<close>\<close>

definition item_year :: "'v fact_item \<Rightarrow> error + int" where
  "item_year i = py_int (take 4 (item_end i))"

text \<open>A dictionary display \<open>{k1: e1, k2: e2, ...}\<close>: the values are evaluated from left to
  right and the first exception ends the evaluation.\<close>

fun dict_display :: "(string \<times> (error + 'a)) list \<Rightarrow> error + (string \<times> 'a) list" where
  "dict_display [] = Inr []"
| "dict_display ((k, r) # rest) =
     (case r of
        Inl e \<Rightarrow> Inl e
      | Inr v \<Rightarrow> (case dict_display rest of Inl e \<Rightarrow> Inl e | Inr d \<Rightarrow> Inr ((k, v) # d)))"

subsection \<open>Extraction in the bootstrap script\<close>

text \<open>
  \<^verbatim>\<open>
  def extract_facts(cik: str):
      r = requests.get(...); r.raise_for_status()
      facts = r.json()["facts"]["us-gaap"]
      cutoff = datetime.date.today().year - 5
      def pick(name):
          items = facts.get(name, {}).get("units", {}).get("USD", [])
          return [{"year": int(i["end"][:4]), "val": i["val"]}
                  for i in items if int(i["end"][:4]) >= cutoff]
      return {"Revenue": pick("Revenues"), "NetIncome": pick("NetIncomeLoss"),
              "OperatingCashFlow": pick("NetCashProvidedByUsedInOperatingActivities"),
              "Assets": pick("Assets"), "Liabilities": pick("Liabilities"),
              "Equity": pick("StockholdersEquity")}
  \<close>
  The year of today and the decoded response are the arguments of the model.
\<close>

fun pick_items :: "int \<Rightarrow> 'v fact_item list \<Rightarrow> error + 'v observation list" where
  "pick_items cutoff [] = Inr []"
| "pick_items cutoff (i # items) =
     (case item_year i of
        Inl e \<Rightarrow> Inl e
      | Inr y \<Rightarrow>
          (case pick_items cutoff items of
             Inl e \<Rightarrow> Inl e
           | Inr obs \<Rightarrow>
               Inr (if cutoff \<le> y then \<lparr>year = y, val = item_val i\<rparr> # obs else obs)))"

definition metric_concepts :: "(string \<times> string) list" where
  "metric_concepts =
     [(''Revenue'', ''Revenues''), (''NetIncome'', ''NetIncomeLoss''),
      (''OperatingCashFlow'', ''NetCashProvidedByUsedInOperatingActivities''),
      (''Assets'', ''Assets''), (''Liabilities'', ''Liabilities''),
      (''Equity'', ''StockholdersEquity'')]"

definition extract_facts ::
  "int \<Rightarrow> 'v response \<Rightarrow> error + (string \<times> 'v observation list) list" where
  "extract_facts today_year r =
     (case facts r of
        None \<Rightarrow> Inl (KeyError ''facts'')
      | Some f \<Rightarrow>
          (case f ''us-gaap'' of
             None \<Rightarrow> Inl (KeyError ''us-gaap'')
           | Some gaap \<Rightarrow>
               (let cutoff = today_year - 5;
                    pick = (\<lambda>name. pick_items cutoff (usd_items gaap name))
                in dict_display (map (\<lambda>(metric, name). (metric, pick name)) metric_concepts))))"

subsection \<open>Extraction and merge in the daily update\<close>

text \<open>
  \<^verbatim>\<open>
  def latest_years(cik):
      r = requests.get(...); r.raise_for_status()
      facts = r.json().get("facts", {}).get("us-gaap", {})
      def pick(name):
          items = facts.get(name, {}).get("units", {}).get("USD", [])
          return {int(i["end"][:4]): i["val"] for i in items}
      return {"Revenue": pick("Revenues"), ... "Equity": pick("StockholdersEquity")}
  \<close>
  The dictionary comprehension stores the items one after the other: a year met again
  keeps its place and takes the later value (\<open>AList.update\<close>).
\<close>

fun pick_years :: "(int \<times> 'v) list \<Rightarrow> 'v fact_item list \<Rightarrow> error + (int \<times> 'v) list" where
  "pick_years d [] = Inr d"
| "pick_years d (i # items) =
     (case item_year i of
        Inl e \<Rightarrow> Inl e
      | Inr y \<Rightarrow> pick_years (AList.update y (item_val i) d) items)"

definition latest_years :: "'v response \<Rightarrow> error + (string \<times> (int \<times> 'v) list) list" where
  "latest_years r =
     (let gaap = (case facts r of
                    None \<Rightarrow> Map.empty
                  | Some f \<Rightarrow> (case f ''us-gaap'' of None \<Rightarrow> Map.empty | Some g \<Rightarrow> g));
          pick = (\<lambda>name. pick_years [] (usd_items gaap name))
      in dict_display (map (\<lambda>(metric, name). (metric, pick name)) metric_concepts))"

text \<open>
  The merge of \<open>main\<close>, for one company; \<open>financials\<close> is \<open>info["financials"]\<close>:
  \<^verbatim>\<open>
  for metric, vals in updated.items():
      known_years = {v["year"] for v in info["financials"].get(metric, [])}
      for year, val in vals.items():
          if year not in known_years:
              info["financials"].setdefault(metric, []).append({"year": year, "val": val})
  \<close>
\<close>

type_synonym 'v financials = "string \<rightharpoonup> 'v observation list"

text \<open>\<open>financials.get(metric, [])\<close>\<close>

definition get_metric :: "'v financials \<Rightarrow> string \<Rightarrow> 'v observation list" where
  "get_metric financials metric = (case financials metric of None \<Rightarrow> [] | Some obs \<Rightarrow> obs)"

text \<open>\<open>financials.setdefault(metric, []).append(ob)\<close>\<close>

definition append_observation :: "'v financials \<Rightarrow> string \<Rightarrow> 'v observation \<Rightarrow> 'v financials" where
  "append_observation financials metric ob =
     financials(metric \<mapsto> get_metric financials metric @ [ob])"

fun merge_vals ::
  "int list \<Rightarrow> string \<Rightarrow> (int \<times> 'v) list \<Rightarrow> 'v financials \<Rightarrow> 'v financials" where
  "merge_vals known_years metric [] financials = financials"
| "merge_vals known_years metric ((y, v) # vals) financials =
     merge_vals known_years metric vals
       (if y \<notin> set known_years
        then append_observation financials metric \<lparr>year = y, val = v\<rparr>
        else financials)"

fun merge_updated :: "(string \<times> (int \<times> 'v) list) list \<Rightarrow> 'v financials \<Rightarrow> 'v financials" where
  "merge_updated [] financials = financials"
| "merge_updated ((metric, vals) # updated) financials =
     merge_updated updated
       (merge_vals (map year (get_metric financials metric)) metric vals financials)"

section \<open>Example inputs\<close>

text \<open>
  Two entries of the SEC file, keyed as the file keys them (by position); the registry of
  the scenarios of the specification, keyed by identifier; a registry keyed by ticker; a
  registry with two titles of one normal form; and a facts payload with an old item.
\<close>

definition sec_registry :: registry where
  "sec_registry =
     [(''0'', \<lparr>cik_str = 320193, title = ''Apple Inc.''\<rparr>),
      (''1'', \<lparr>cik_str = 789019, title = ''Microsoft Corporation''\<rparr>)]"

definition spec_registry :: registry where
  "spec_registry =
     [(''0000320193'', \<lparr>cik_str = 320193, title = ''Apple Inc.''\<rparr>),
      (''0000789019'', \<lparr>cik_str = 789019, title = ''Microsoft Corporation''\<rparr>)]"

definition ticker_registry :: registry where
  "ticker_registry = [(''AAPL'', \<lparr>cik_str = 320193, title = ''Apple Inc.''\<rparr>)]"

definition twin_registry :: registry where
  "twin_registry =
     [(''0'', \<lparr>cik_str = 1, title = ''Apple Inc''\<rparr>),
      (''1'', \<lparr>cik_str = 2, title = ''Apple''\<rparr>)]"

definition old_response :: "int response" where
  "old_response =
     \<lparr>facts = Some [''us-gaap'' \<mapsto>
        [''Revenues'' \<mapsto> \<lparr>units = Some [''USD'' \<mapsto>
           [\<lparr>item_end = ''2010-12-31'', item_val = 5\<rparr>,
            \<lparr>item_end = ''2023-12-31'', item_val = 7\<rparr>]]\<rparr>]]\<rparr>"

section \<open>Properties of the normalizer\<close>

subsection \<open>Characters\<close>

lemma ord_chr: "0 \<le> n \<Longrightarrow> n < 256 \<Longrightarrow> ord (chr n) = n"
  by (simp add: ord_def chr_def)

lemma match_literal_eq:
  "match_literal prev t s =
     (if length t \<le> length s \<and> map lower_char (take (length t) s) = t
      then Some (if t = [] then prev else Some (last (take (length t) s)), drop (length t) s)
      else None)"
proof (induction prev t s rule: match_literal.induct)
  case (1 prev s)
  show ?case by simp
next
  case (2 prev p ps)
  show ?case by simp
next
  case (3 prev p ps c cs)
  show ?case
  proof (cases "lower_char c = p")
    case True
    have "length ps \<le> length cs \<Longrightarrow> ps \<noteq> [] \<Longrightarrow> take (length ps) cs \<noteq> []"
      by (cases cs; cases ps) simp_all
    with True 3 show ?thesis by simp
  next
    case False
    then show ?thesis by simp
  qed
qed


lemma lower_letter_is_word:
  assumes "is_ascii_lower (lower_char c)" shows "is_word c"
proof (cases "is_ascii_upper c \<or> is_latin1_upper c")
  case True
  show ?thesis
  proof (cases "is_ascii_upper c")
    case True then show ?thesis by (simp add: is_word_def)
  next
    case False
    with True have u: "is_latin1_upper c" by simp
    then have "ord (chr (ord c + 32)) = ord c + 32"
      by (intro ord_chr) (simp_all add: is_latin1_upper_def)
    with u assms show ?thesis
      by (simp add: lower_char_def is_latin1_upper_def is_ascii_lower_def)
  qed
next
  case False
  with assms show ?thesis by (simp add: lower_char_def is_word_def)
qed

lemma suffix_token_chars:
  "t \<in> set suffix_tokens \<Longrightarrow> t \<noteq> [] \<and> (\<forall>c \<in> set t. is_ascii_lower c)"
  by (auto simp: suffix_tokens_def is_ascii_lower_def ord_def)

lemma try_literal_eq:
  assumes t: "t \<noteq> []" "\<forall>c \<in> set t. is_ascii_lower c"
  shows "try_literal prev t s =
           (if map lower_char (takeWhile is_word s) = t
            then Some (Some (last (takeWhile is_word s)), dropWhile is_word s) else None)"
proof (cases "length t \<le> length s \<and> map lower_char (take (length t) s) = t")
  case True
  define m where "m = take (length t) s"
  define r where "r = drop (length t) s"
  have s: "s = m @ r" by (simp add: m_def r_def)
  have mt: "map lower_char m = t" using True by (simp add: m_def)
  have m_ne: "m \<noteq> []" using mt t(1) by auto
  have m_word: "\<forall>c \<in> set m. is_word c"
  proof
    fix c assume "c \<in> set m"
    then have "lower_char c \<in> set t" using mt by force
    with t(2) show "is_word c" by (blast intro: lower_letter_is_word)
  qed
  then have last_word: "is_word (last m)" using m_ne by simp
  have lit: "match_literal prev t s = Some (Some (last m), r)"
    using True t(1) by (simp add: match_literal_eq m_def r_def)
  show ?thesis
  proof (cases "r = [] \<or> \<not> is_word (hd r)")
    case True
    then have b: "at_boundary (Some (last m)) r"
      using last_word by (cases r) (auto simp: at_boundary_def prev_is_word_def)
    have tw: "takeWhile is_word s = m" and dw: "dropWhile is_word s = r"
      using True m_word by (cases r; simp add: s)+
    show ?thesis using lit b mt by (simp add: try_literal_def tw dw)
  next
    case False
    then obtain c r' where r: "r = c # r'" and c: "is_word c" by (cases r) auto
    have b: "\<not> at_boundary (Some (last m)) r"
      using last_word c by (simp add: at_boundary_def prev_is_word_def r)
    have "takeWhile is_word s = m @ takeWhile is_word r"
      using m_word by (simp add: s)
    then have "length (takeWhile is_word s) > length t"
      using mt c by (auto simp: r)
    then have "map lower_char (takeWhile is_word s) \<noteq> t" by auto
    then show ?thesis using lit b by (simp add: try_literal_def)
  qed
next
  case False
  then have lit: "match_literal prev t s = None" by (simp add: match_literal_eq)
  have "map lower_char (takeWhile is_word s) \<noteq> t"
  proof
    assume e: "map lower_char (takeWhile is_word s) = t"
    then have len: "length (takeWhile is_word s) = length t" by auto
    have "take (length t) s = take (length t) (takeWhile is_word s @ dropWhile is_word s)"
      by simp
    also have "\<dots> = takeWhile is_word s" using len by (simp del: takeWhile_dropWhile_id)
    finally have "map lower_char (take (length t) s) = t" using e by simp
    moreover have "length t \<le> length s"
      using len length_takeWhile_le [of is_word s] by simp
    ultimately show False using False by simp
  qed
  then show ?thesis using lit by (simp add: try_literal_def)
qed

lemma match_alternatives_eq:
  assumes "\<forall>t \<in> set ts. t \<noteq> [] \<and> (\<forall>c \<in> set t. is_ascii_lower c)"
  shows "match_alternatives prev ts s =
           (if map lower_char (takeWhile is_word s) \<in> set ts
            then Some (Some (last (takeWhile is_word s)), dropWhile is_word s) else None)"
  using assms
proof (induction ts)
  case Nil
  show ?case by simp
next
  case (Cons t ts)
  then have "try_literal prev t s =
           (if map lower_char (takeWhile is_word s) = t
            then Some (Some (last (takeWhile is_word s)), dropWhile is_word s) else None)"
    by (intro try_literal_eq) auto
  moreover have "match_alternatives prev ts s =
           (if map lower_char (takeWhile is_word s) \<in> set ts
            then Some (Some (last (takeWhile is_word s)), dropWhile is_word s) else None)"
    using Cons by simp
  ultimately show ?case
    by auto
qed

lemma match_suffix_pattern_eq:
  "match_suffix_pattern prev s =
     (if at_boundary prev s \<and> py_lower (takeWhile is_word s) \<in> set suffix_tokens
      then Some (Some (last (takeWhile is_word s)), dropWhile is_word s) else None)"
  using match_alternatives_eq [of suffix_tokens prev s] suffix_token_chars
  by (simp add: match_suffix_pattern_def py_lower_def)


lemma takeWhile_dropWhile_Nil: "takeWhile P (dropWhile P xs) = []"
  by (induction xs) auto

lemma at_boundary_Cons: "at_boundary prev (c # cs) = (prev_is_word prev \<noteq> is_word c)"
  by (simp add: at_boundary_def)

lemma re_sub_suffixes_eq:
  "re_sub_suffixes prev s =
     (if prev_is_word prev
      then takeWhile is_word s @ remove_suffix_words (dropWhile is_word s)
      else remove_suffix_words s)"
proof (induction prev s rule: re_sub_suffixes.induct)
  case (1 prev)
  show ?case by simp
next
  case (2 prev c cs)
  let ?w = "takeWhile is_word (c # cs)"
  show ?case
  proof (cases "at_boundary prev (c # cs) \<and> py_lower ?w \<in> set suffix_tokens")
    case True
    then have w_ne: "?w \<noteq> []" using suffix_token_chars by (fastforce simp: py_lower_def)
    then have c: "is_word c" by (auto split: if_splits)
    with True have p: "\<not> prev_is_word prev" by (simp add: at_boundary_Cons)
    have "last ?w \<in> set ?w" using w_ne by (rule last_in_set)
    then have lw: "prev_is_word (Some (last ?w))"
      by (auto simp: prev_is_word_def dest: set_takeWhileD)
    have m: "match_suffix_pattern prev (c # cs) = Some (Some (last ?w), dropWhile is_word (c # cs))"
      using True by (simp add: match_suffix_pattern_eq)
    have "re_sub_suffixes prev (c # cs) = re_sub_suffixes (Some (last ?w)) (dropWhile is_word (c # cs))"
      using m by simp
    also have "\<dots> = remove_suffix_words (dropWhile is_word (c # cs))"
      using "2.IH"(2) [OF m refl] lw by (simp add: takeWhile_dropWhile_Nil)
    finally show ?thesis using True c p by simp
  next
    case False
    then have m: "match_suffix_pattern prev (c # cs) = None"
      by (simp add: match_suffix_pattern_eq)
    have step: "re_sub_suffixes prev (c # cs) = c # re_sub_suffixes (Some c) cs"
      using m by simp
    have ih: "re_sub_suffixes (Some c) cs =
      (if is_word c then takeWhile is_word cs @ remove_suffix_words (dropWhile is_word cs)
       else remove_suffix_words cs)"
      using "2.IH"(1) [OF m] by (simp add: prev_is_word_def)
    show ?thesis
    proof (cases "is_word c")
      case c: True
      show ?thesis
      proof (cases "prev_is_word prev")
        case True
        with c step ih show ?thesis by simp
      next
        case p: False
        with c False have "py_lower (c # takeWhile is_word cs) \<notin> set suffix_tokens"
          by (simp add: at_boundary_Cons)
        with c p step ih show ?thesis by simp
      qed
    next
      case c: False
      with step ih show ?thesis by simp
    qed
  qed
qed

lemma re_sub_suffixes_None: "re_sub_suffixes None s = remove_suffix_words s"
  by (simp add: re_sub_suffixes_eq prev_is_word_def)

subsection \<open>Splitting and joining against collapsing and trimming\<close>

lemma split_loop_acc:
  "w \<noteq> [] \<Longrightarrow> split_loop w s =
     (w @ takeWhile (\<lambda>c. \<not> py_isspace c) s) # split_loop [] (dropWhile (\<lambda>c. \<not> py_isspace c) s)"
  by (induction s arbitrary: w) auto

lemma py_split_Nil: "py_split [] = []"
  by (simp add: py_split_def)

lemma py_split_space: "py_isspace c \<Longrightarrow> py_split (c # cs) = py_split cs"
  by (simp add: py_split_def)

lemma py_split_nonspace:
  "\<not> py_isspace c \<Longrightarrow> py_split (c # cs) =
     (c # takeWhile (\<lambda>c. \<not> py_isspace c) cs) # py_split (dropWhile (\<lambda>c. \<not> py_isspace c) cs)"
  by (simp add: py_split_def split_loop_acc)

lemma py_split_words:
  "w \<in> set (py_split s) \<Longrightarrow> w \<noteq> [] \<and> (\<forall>c \<in> set w. \<not> py_isspace c \<and> c \<in> set s)"
proof (induction s arbitrary: w rule: length_induct)
  case (1 s)
  show ?case
  proof (cases s)
    case Nil
    with 1 show ?thesis by (simp add: py_split_Nil)
  next
    case (Cons c cs)
    show ?thesis
    proof (cases "py_isspace c")
      case True
      with 1 Cons show ?thesis by (auto simp: py_split_space)
    next
      case False
      let ?d = "dropWhile (\<lambda>c. \<not> py_isspace c) cs"
      have "length ?d < length s" using Cons by (simp add: less_Suc_eq_le length_dropWhile_le)
      with 1 have ih: "\<And>v. v \<in> set (py_split ?d) \<Longrightarrow> v \<noteq> [] \<and> (\<forall>c \<in> set v. \<not> py_isspace c \<and> c \<in> set ?d)"
        by blast
      from 1(2) Cons False
      consider "w = c # takeWhile (\<lambda>c. \<not> py_isspace c) cs" | "w \<in> set (py_split ?d)"
        by (auto simp: py_split_nonspace)
      then show ?thesis
      proof cases
        case 1
        then show ?thesis using False Cons by (auto dest: set_takeWhileD)
      next
        case 2
        from ih [OF 2] show ?thesis using Cons by (auto dest: set_dropWhileD)
      qed
    qed
  qed
qed





lemma join_split_space:
  "py_isspace c \<Longrightarrow> py_join sep (py_split (c # cs)) = py_join sep (py_split cs)"
  by (simp add: py_split_space)




lemma rstrip_eq_Nil: "rstrip s = [] \<longleftrightarrow> (\<forall>c \<in> set s. py_isspace c)"
  by (simp add: rstrip_def)


lemma collapse_head:
  "collapse_whitespace s = [] \<longleftrightarrow> s = []"
  by (cases s) simp_all



subsection \<open>The normalizer against the reference pipeline\<close>


text \<open>
  Claim C6, as the code has it.  The word \<open>Systems\<close> is not a suffix token, so the two
  names of the example normalize to different strings: \<open>adobe systems\<close> and \<open>adobe\<close>.
\<close>

theorem normalize_adobe_counterexample:
  "normalize_name ''Adobe Systems Incorporated'' \<noteq> normalize_name ''ADOBE INC''"
  by code_simp

text \<open>
  Claim C6, amended.  Normalization is insensitive to case and to the suffix tokens: a
  name keeps its normal form when its case and its suffix change (\<open>Adobe Systems
  Incorporated\<close> against \<open>ADOBE SYSTEMS INC\<close>, \<open>Adobe Incorporated\<close> against
  \<open>ADOBE INC\<close>), and the normal forms of the two names of the example are
  \<open>adobe systems\<close> and \<open>adobe\<close>.
\<close>

theorem normalize_adobe:
  "normalize_name ''Adobe Systems Incorporated'' = normalize_name ''ADOBE SYSTEMS INC''
   \<and> normalize_name ''Adobe Incorporated'' = normalize_name ''ADOBE INC''
   \<and> normalize_name ''Adobe Systems Incorporated'' = ''adobe systems''
   \<and> normalize_name ''ADOBE INC'' = ''adobe''"
  by code_simp

subsection \<open>Normalizing a normalized name\<close>

lemma space_is_space: "py_isspace (CHR '' '')"
  by (simp add: py_isspace_def ord_def)

lemma space_not_word: "\<not> is_word (CHR '' '')"
  by (simp add: is_word_def is_digit_def is_ascii_upper_def is_ascii_lower_def
        is_latin1_alnum_def ord_def)

lemma clean_char:
  assumes "is_ascii_lower c \<or> is_digit c"
  shows "is_word c" "\<not> py_isspace c" "lower_char c = c" "in_az09_space c"
  using assms
  by (auto simp: is_word_def py_isspace_def lower_char_def in_az09_space_def
        is_ascii_lower_def is_digit_def is_ascii_upper_def is_latin1_upper_def)

lemma dropWhile_all: "\<forall>x \<in> set xs. P x \<Longrightarrow> dropWhile P xs = []"
  by simp

lemma takeWhile_all: "\<forall>x \<in> set xs. P x \<Longrightarrow> takeWhile P xs = xs"
  by simp

lemma py_split_word:
  "\<forall>c \<in> set w. \<not> py_isspace c \<Longrightarrow> py_split w = (if w = [] then [] else [w])"
  by (cases w) (simp_all add: py_split_Nil py_split_nonspace dropWhile_all takeWhile_all)

lemma py_split_word_sep:
  "\<forall>c \<in> set w. \<not> py_isspace c \<Longrightarrow> py_isspace c \<Longrightarrow>
     py_split (w @ c # rest) = (if w = [] then py_split rest else w # py_split rest)"
  by (cases w) (simp_all add: py_split_space py_split_nonspace)

lemma py_split_join:
  "\<forall>w \<in> set ws. \<forall>c \<in> set w. \<not> py_isspace c \<Longrightarrow>
     py_split (py_join '' '' ws) = filter (\<lambda>w. w \<noteq> []) ws"
proof (induction "'' ''" ws rule: py_join.induct)
  case 1
  show ?case by (simp add: py_split_Nil)
next
  case (2 w)
  then show ?case by (simp add: py_split_word)
next
  case (3 w v vs)
  then show ?case by (simp add: py_split_word_sep space_is_space)
qed

lemma remove_suffix_words_word:
  assumes "w \<noteq> []" "\<forall>c \<in> set w. is_word c" "rest = [] \<or> \<not> is_word (hd rest)"
  shows "remove_suffix_words (w @ rest) =
           (if py_lower w \<in> set suffix_tokens then [] else w) @ remove_suffix_words rest"
proof -
  from assms(1) obtain a w' where w: "w = a # w'" by (cases w) auto
  have tw: "takeWhile is_word (w' @ rest) = w'" and dw: "dropWhile is_word (w' @ rest) = rest"
    using assms(2,3) by (cases rest; simp add: w)+
  show ?thesis using assms(2) by (simp add: w tw dw)
qed

lemma remove_suffix_words_join:
  assumes "\<forall>w \<in> set ws. clean_word w"
  shows "remove_suffix_words (py_join '' '' ws) =
           py_join '' '' (map (\<lambda>w. if w \<in> set suffix_tokens then [] else w) ws)"
  using assms
proof (induction "'' ''" ws rule: py_join.induct)
  case 1
  show ?case by simp
next
  case (2 w)
  then have w: "w \<noteq> []" "\<forall>c \<in> set w. is_word c" "py_lower w = w"
    by (auto simp: clean_word_def py_lower_def clean_char intro: map_idI)
  from remove_suffix_words_word [OF w(1,2), of "[]"] w(3) show ?case by simp
next
  case (3 w v vs)
  then have w: "w \<noteq> []" "\<forall>c \<in> set w. is_word c" "py_lower w = w"
    by (auto simp: clean_word_def py_lower_def clean_char intro: map_idI)
  have "remove_suffix_words (w @ CHR '' '' # py_join '' '' (v # vs)) =
          (if w \<in> set suffix_tokens then [] else w) @ remove_suffix_words (CHR '' '' # py_join '' '' (v # vs))"
    using remove_suffix_words_word [OF w(1,2), of "CHR '' '' # py_join '' '' (v # vs)"] w(3)
    by (simp add: space_not_word)
  then show ?case using 3 by (simp add: space_not_word)
qed

lemma set_py_join: "set (py_join sep ws) \<subseteq> set sep \<union> \<Union> (set ` set ws)"
  by (induction sep ws rule: py_join.induct) auto


lemma clean_words_split:
  assumes "\<forall>c \<in> set x. in_az09_space c" "w \<in> set (py_split x)"
  shows "clean_word w"
proof -
  from py_split_words [OF assms(2)]
  have ne: "w \<noteq> []" and cs: "\<forall>c \<in> set w. \<not> py_isspace c \<and> c \<in> set x" by auto
  have "is_ascii_lower c \<or> is_digit c" if "c \<in> set w" for c
  proof -
    from that cs assms(1) have "in_az09_space c" "\<not> py_isspace c" by auto
    then show ?thesis by (auto simp: in_az09_space_def py_isspace_def)
  qed
  with ne show ?thesis by (simp add: clean_word_def)
qed

lemma normalize_name_join:
  assumes ws: "\<forall>w \<in> set ws. clean_word w"
  shows "normalize_name (py_join '' '' ws) =
           py_join '' '' (filter (\<lambda>w. w \<notin> set suffix_tokens) ws)"
proof -
  let ?f = "\<lambda>w. if w \<in> set suffix_tokens then [] else w"
  let ?y = "py_join '' '' (map ?f ws)"
  have chars: "is_ascii_lower c \<or> is_digit c \<or> c = CHR '' ''" if "c \<in> set ?y" for c
  proof -
    from that set_py_join [of "'' ''" "map ?f ws"]
    consider "c = CHR '' ''" | w where "w \<in> set ws" "c \<in> set (?f w)" by auto
    then show ?thesis
    proof cases
      case 1 then show ?thesis by simp
    next
      case 2
      then have "c \<in> set w" by (auto split: if_splits)
      with 2(1) ws show ?thesis by (auto simp: clean_word_def)
    qed
  qed
  have sp: "lower_char (CHR '' '') = CHR '' ''" "in_az09_space (CHR '' '')"
    by (simp_all add: lower_char_def in_az09_space_def is_ascii_upper_def is_latin1_upper_def ord_def)
  have low: "map lower_char ?y = ?y"
    by (rule map_idI) (use chars sp clean_char(3) in blast)
  have fil: "filter in_az09_space ?y = ?y"
    using chars sp clean_char(4) by (intro filter_True ballI) blast
  have free: "\<forall>w \<in> set (map ?f ws). \<forall>c \<in> set w. \<not> py_isspace c"
    using ws by (auto simp: clean_word_def clean_char(2) split: if_splits)
  have ne: "filter (\<lambda>w. w \<noteq> []) (map ?f ws) = filter (\<lambda>w. w \<notin> set suffix_tokens) ws"
    using ws by (induction ws) (auto simp: clean_word_def)
  have "normalize_name (py_join '' '' ws) = py_join '' '' (py_split ?y)"
    by (simp add: normalize_name_def re_sub_suffixes_None remove_suffix_words_join [OF ws]
          re_sub_other_def py_lower_def low fil)
  also have "\<dots> = py_join '' '' (filter (\<lambda>w. w \<notin> set suffix_tokens) ws)"
    by (simp add: py_split_join [OF free] ne)
  finally show ?thesis .
qed

lemma normalize_name_words:
  "\<forall>w \<in> set (py_split (re_sub_other (py_lower (re_sub_suffixes None s)))). clean_word w"
  by (auto intro!: clean_words_split simp: re_sub_other_def)

lemma py_split_join_clean:
  "\<forall>w \<in> set ws. clean_word w \<Longrightarrow> py_split (py_join '' '' ws) = ws"
proof -
  assume ws: "\<forall>w \<in> set ws. clean_word w"
  then have "\<forall>w \<in> set ws. \<forall>c \<in> set w. \<not> py_isspace c"
    by (auto simp: clean_word_def clean_char(2))
  from py_split_join [OF this] ws show ?thesis
    by (auto simp: clean_word_def intro: filter_True)
qed

lemma py_split_normalize_name:
  "py_split (normalize_name s) = py_split (re_sub_other (py_lower (re_sub_suffixes None s)))"
  by (simp add: normalize_name_def py_split_join_clean [OF normalize_name_words])

text \<open>
  Claim C5, as the code has it.  The suffix tokens are removed before the punctuation
  is: \<open>Acme L.L.C.\<close> normalizes to \<open>acme llc\<close>, whose word \<open>llc\<close> the second pass removes.
\<close>

theorem normalize_not_idempotent_counterexample:
  "normalize_name (normalize_name ''Acme L.L.C.'') \<noteq> normalize_name ''Acme L.L.C.''"
  by code_simp

text \<open>
  Claim C5, amended.  Normalizing a normalized name removes exactly its words that are
  suffix tokens; so \<open>normalize_name (normalize_name s)\<close> equals \<open>normalize_name s\<close> if and
  only if no word of \<open>normalize_name s\<close> is one of the nine suffix tokens.
\<close>

theorem normalize_name_twice:
  "normalize_name (normalize_name s) =
     py_join '' '' (filter (\<lambda>w. w \<notin> set suffix_tokens) (py_split (normalize_name s)))
   \<and> (normalize_name (normalize_name s) = normalize_name s
        \<longleftrightarrow> set (py_split (normalize_name s)) \<inter> set suffix_tokens = {})"
proof -
  define ws where "ws = py_split (re_sub_other (py_lower (re_sub_suffixes None s)))"
  have ws: "\<forall>w \<in> set ws. clean_word w"
    unfolding ws_def by (rule normalize_name_words)
  have n: "normalize_name s = py_join '' '' ws"
    by (simp add: normalize_name_def ws_def)
  have sp: "py_split (normalize_name s) = ws"
    by (simp add: py_split_normalize_name ws_def)
  let ?keep = "filter (\<lambda>w. w \<notin> set suffix_tokens) ws"
  have twice: "normalize_name (normalize_name s) = py_join '' '' ?keep"
    unfolding n by (rule normalize_name_join [OF ws])
  have keep: "\<forall>w \<in> set ?keep. clean_word w" using ws by simp
  have "py_join '' '' ?keep = py_join '' '' ws \<longleftrightarrow> ?keep = ws"
  proof
    assume "py_join '' '' ?keep = py_join '' '' ws"
    then have "py_split (py_join '' '' ?keep) = py_split (py_join '' '' ws)" by simp
    then show "?keep = ws"
      by (simp only: py_split_join_clean [OF keep] py_split_join_clean [OF ws])
  qed simp
  also have "\<dots> \<longleftrightarrow> set ws \<inter> set suffix_tokens = {}"
    by (auto simp: filter_id_conv)
  finally show ?thesis using twice n sp by simp
qed

theorem normalize_name_twice_witness:
  "normalize_name (normalize_name ''Adobe Inc.'') = normalize_name ''Adobe Inc.''"
proof -
  have "set (py_split (normalize_name ''Adobe Inc.'')) \<inter> set suffix_tokens = {}"
    by code_simp
  with normalize_name_twice [of "''Adobe Inc.''"] show ?thesis by blast
qed

section \<open>Properties of the resolution\<close>

subsection \<open>Substrings and the best choice\<close>

text \<open>\<open>py_in\<close> is containment as a substring.\<close>

lemma startswith_iff: "startswith s p \<longleftrightarrow> (\<exists>r. s = p @ r)"
  by (induction s p rule: startswith.induct) auto

lemma py_in_iff: "py_in sub s \<longleftrightarrow> (\<exists>p r. s = p @ sub @ r)"
proof (induction s)
  case Nil
  show ?case by auto
next
  case (Cons c cs)
  have "(\<exists>p r. c # cs = p @ sub @ r) \<longleftrightarrow> (\<exists>r. c # cs = sub @ r) \<or> (\<exists>p r. cs = p @ sub @ r)"
  proof
    assume "\<exists>p r. c # cs = p @ sub @ r"
    then obtain p r where e: "c # cs = p @ sub @ r" by blast
    show "(\<exists>r. c # cs = sub @ r) \<or> (\<exists>p r. cs = p @ sub @ r)"
    proof (cases p)
      case Nil
      with e show ?thesis by auto
    next
      case (Cons a p')
      with e have "cs = p' @ sub @ r" by simp
      then show ?thesis by blast
    qed
  next
    assume "(\<exists>r. c # cs = sub @ r) \<or> (\<exists>p r. cs = p @ sub @ r)"
    then show "\<exists>p r. c # cs = p @ sub @ r"
    proof
      assume "\<exists>r. c # cs = sub @ r"
      then obtain r where "c # cs = [] @ sub @ r" by auto
      then show ?thesis by blast
    next
      assume "\<exists>p r. cs = p @ sub @ r"
      then obtain p r where "c # cs = (c # p) @ sub @ r" by auto
      then show ?thesis by blast
    qed
  qed
  with Cons show ?case by (simp add: startswith_iff)
qed

lemma extract_loop_result:
  "extract_loop sc q i cs (Some (b0, s0, k0)) = Some (b, s, k) \<Longrightarrow>
     (\<forall>c \<in> set cs. sc q c \<le> s) \<and> s0 \<le> s \<and>
     ((b, s, k) = (b0, s0, k0) \<or>
      (s0 < s \<and> i \<le> k \<and> k < i + length cs \<and> b = cs ! (k - i) \<and> s = sc q b
       \<and> (\<forall>j < k - i. sc q (cs ! j) < s)))"
proof (induction cs arbitrary: i b0 s0 k0)
  case Nil
  then show ?case by simp
next
  case (Cons c cs)
  show ?case
  proof (cases "s0 < sc q c")
    case True
    with Cons.prems have "extract_loop sc q (Suc i) cs (Some (c, sc q c, i)) = Some (b, s, k)"
      by simp
    from Cons.IH [OF this]
    have ub: "\<forall>c \<in> set cs. sc q c \<le> s" and le: "sc q c \<le> s"
      and alt: "(b, s, k) = (c, sc q c, i) \<or>
        (sc q c < s \<and> Suc i \<le> k \<and> k < Suc i + length cs \<and> b = cs ! (k - Suc i) \<and> s = sc q b
         \<and> (\<forall>j < k - Suc i. sc q (cs ! j) < s))"
      by auto
    from alt have "s0 < s \<and> i \<le> k \<and> k < i + length (c # cs) \<and> b = (c # cs) ! (k - i) \<and> s = sc q b
        \<and> (\<forall>j < k - i. sc q ((c # cs) ! j) < s)"
    proof
      assume "(b, s, k) = (c, sc q c, i)"
      with True show ?thesis by simp
    next
      assume a: "sc q c < s \<and> Suc i \<le> k \<and> k < Suc i + length cs \<and> b = cs ! (k - Suc i) \<and> s = sc q b
         \<and> (\<forall>j < k - Suc i. sc q (cs ! j) < s)"
      then have "Suc i \<le> k" by blast
      then have k: "k - i = Suc (k - Suc i)" by arith
      have "sc q ((c # cs) ! j) < s" if "j < k - i" for j
        using that a k by (cases j) auto
      with a True k show ?thesis by auto
    qed
    with ub le True show ?thesis by auto
  next
    case False
    with Cons.prems have "extract_loop sc q (Suc i) cs (Some (b0, s0, k0)) = Some (b, s, k)"
      by simp
    from Cons.IH [OF this]
    have ub: "\<forall>c \<in> set cs. sc q c \<le> s" and le: "s0 \<le> s"
      and alt: "(b, s, k) = (b0, s0, k0) \<or>
        (s0 < s \<and> Suc i \<le> k \<and> k < Suc i + length cs \<and> b = cs ! (k - Suc i) \<and> s = sc q b
         \<and> (\<forall>j < k - Suc i. sc q (cs ! j) < s))"
      by auto
    from alt have "(b, s, k) = (b0, s0, k0) \<or> (s0 < s \<and> i \<le> k \<and> k < i + length (c # cs) \<and> b = (c # cs) ! (k - i) \<and> s = sc q b
        \<and> (\<forall>j < k - i. sc q ((c # cs) ! j) < s))"
    proof
      assume "(b, s, k) = (b0, s0, k0)"
      then show ?thesis by simp
    next
      assume a: "s0 < s \<and> Suc i \<le> k \<and> k < Suc i + length cs \<and> b = cs ! (k - Suc i) \<and> s = sc q b
         \<and> (\<forall>j < k - Suc i. sc q (cs ! j) < s)"
      then have "Suc i \<le> k" by blast
      then have k: "k - i = Suc (k - Suc i)" by arith
      have "sc q ((c # cs) ! j) < s" if "j < k - i" for j
        using that a k False by (cases j) auto
      with a k show ?thesis by auto
    qed
    with ub le False show ?thesis by auto
  qed
qed

lemma extractOne_Nil: "extractOne sc q [] = None"
  by (simp add: extractOne_def)

lemma extract_loop_Some: "\<exists>r. extract_loop sc q i cs (Some x) = Some r"
  by (induction cs arbitrary: i x) (auto simp: Let_def split: prod.splits)

lemma extractOne_Cons_Some: "\<exists>b s k. extractOne sc q (c # cs) = Some (b, s, k)"
  using extract_loop_Some [of sc q "Suc 0" cs "(c, sc q c, 0)"]
  by (auto simp: extractOne_def)

lemma extractOne_result:
  assumes "extractOne sc q cs = Some (b, s, k)"
  shows "k < length cs \<and> b = cs ! k \<and> s = sc q b \<and> (\<forall>c \<in> set cs. sc q c \<le> s)
         \<and> (\<forall>j < k. sc q (cs ! j) < s)"
proof (cases cs)
  case Nil
  with assms show ?thesis by (simp add: extractOne_def)
next
  case (Cons c cs')
  with assms have "extract_loop sc q (Suc 0) cs' (Some (c, sc q c, 0)) = Some (b, s, k)"
    by (simp add: extractOne_def)
  from extract_loop_result [OF this]
  have ub: "\<forall>c \<in> set cs'. sc q c \<le> s" and le: "sc q c \<le> s"
    and alt: "(b, s, k) = (c, sc q c, 0) \<or>
      (sc q c < s \<and> Suc 0 \<le> k \<and> k < Suc 0 + length cs' \<and> b = cs' ! (k - Suc 0) \<and> s = sc q b
       \<and> (\<forall>j < k - Suc 0. sc q (cs' ! j) < s))"
    by auto
  from alt show ?thesis
  proof
    assume "(b, s, k) = (c, sc q c, 0)"
    with ub Cons show ?thesis by simp
  next
    assume a: "sc q c < s \<and> Suc 0 \<le> k \<and> k < Suc 0 + length cs' \<and> b = cs' ! (k - Suc 0) \<and> s = sc q b
       \<and> (\<forall>j < k - Suc 0. sc q (cs' ! j) < s)"
    then obtain k' where k: "k = Suc k'" by (cases k) auto
    have "sc q (cs ! j) < s" if "j < k" for j
      using that a k Cons by (cases j) auto
    with a k ub le Cons show ?thesis by auto
  qed
qed

subsection \<open>The bootstrap routine\<close>

lemma get_cik_unfold:
  "get_cik sc q mapping =
     (case extractOne sc (normalize_name q) (map (\<lambda>e. normalize_name (title (snd e))) mapping) of
        None \<Rightarrow> Inl TypeError
      | Some (best, score, key) \<Rightarrow>
          if 85 \<le> score
          then (case map_of mapping (str_nat key) of
                  None \<Rightarrow> Inl (KeyError (str_nat key))
                | Some v \<Rightarrow> Inr (zfill 10 (py_str (cik_str v))))
          else (case find (\<lambda>v. py_in (normalize_name q) (normalize_name (title v))) (map snd mapping) of
                  Some v \<Rightarrow> Inr (zfill 10 (py_str (cik_str v)))
                | None \<Rightarrow> Inl (NotFound score)))"
  by (simp add: get_cik_def Let_def case_prod_unfold comp_def)

lemma extractOne_titles:
  assumes "mapping \<noteq> []"
  obtains best score key where
    "extractOne sc t (map (\<lambda>e. normalize_name (title (snd e))) mapping) = Some (best, score, key)"
    "key < length mapping"
    "score = sc t (normalize_name (title (snd (mapping ! key))))"
    "\<forall>e \<in> set mapping. sc t (normalize_name (title (snd e))) \<le> score"
    "\<forall>j < key. sc t (normalize_name (title (snd (mapping ! j)))) < score"
proof -
  let ?cs = "map (\<lambda>e. normalize_name (title (snd e))) mapping"
  from assms obtain c cs where "?cs = c # cs" by (cases mapping) auto
  with extractOne_Cons_Some [of sc t c cs]
  obtain b s k where e: "extractOne sc t ?cs = Some (b, s, k)" by auto
  from extractOne_result [OF e] show ?thesis
    by (intro that [of b s k]) (auto simp: e)
qed

text \<open>
  Claim C2.  For every scorer, query and registry: if no normalized title scores 85 or
  more against the normalized query, and entry \<open>i\<close> is the first entry, in iteration
  order, whose normalized title contains the normalized query as a substring, then
  \<open>get_cik\<close> returns the identifier of entry \<open>i\<close>, zero-padded to ten digits.
\<close>

theorem get_cik_substring_fallback:
  assumes below: "\<forall>e \<in> set mapping. sc (normalize_name q) (normalize_name (title (snd e))) < 85"
    and i: "i < length mapping"
    and hit: "py_in (normalize_name q) (normalize_name (title (snd (mapping ! i))))"
    and first: "\<forall>j < i. \<not> py_in (normalize_name q) (normalize_name (title (snd (mapping ! j))))"
  shows "get_cik sc q mapping = Inr (zfill 10 (py_str (cik_str (snd (mapping ! i)))))"
proof -
  from i have ne: "mapping \<noteq> []" by auto
  from extractOne_titles [OF ne, of sc "normalize_name q"]
  obtain best score key where
    e: "extractOne sc (normalize_name q) (map (\<lambda>e. normalize_name (title (snd e))) mapping)
          = Some (best, score, key)"
    and key: "key < length mapping"
    and score: "score = sc (normalize_name q) (normalize_name (title (snd (mapping ! key))))"
    by metis
  from key below have "score < 85" by (simp add: score)
  moreover have "find (\<lambda>v. py_in (normalize_name q) (normalize_name (title v))) (map snd mapping)
      = Some (snd (mapping ! i))"
    using i hit first by (auto simp: find_Some_iff intro!: exI [of _ i])
  ultimately show ?thesis by (simp add: get_cik_unfold e)
qed

text \<open>
  Claim C3.  For every scorer, query and non-empty registry: if no normalized title
  scores 85 or more and none contains the normalized query, \<open>get_cik\<close> fails with
  \<open>NotFound\<close>, and the score it carries is the maximum of the scores of all entries.
\<close>

theorem get_cik_not_found:
  assumes ne: "mapping \<noteq> []"
    and below: "\<forall>e \<in> set mapping. sc (normalize_name q) (normalize_name (title (snd e))) < 85"
    and miss: "\<forall>e \<in> set mapping. \<not> py_in (normalize_name q) (normalize_name (title (snd e)))"
  shows "get_cik sc q mapping =
           Inl (NotFound (Max ((\<lambda>e. sc (normalize_name q) (normalize_name (title (snd e)))) ` set mapping)))"
proof -
  let ?score = "\<lambda>e. sc (normalize_name q) (normalize_name (title (snd e)))"
  from extractOne_titles [OF ne, of sc "normalize_name q"]
  obtain best score key where
    e: "extractOne sc (normalize_name q) (map (\<lambda>e. normalize_name (title (snd e))) mapping)
          = Some (best, score, key)"
    and key: "key < length mapping"
    and score: "score = ?score (mapping ! key)"
    and ub: "\<forall>e \<in> set mapping. ?score e \<le> score"
    by metis
  from key below have lt: "score < 85" by (simp add: score)
  have "Max (?score ` set mapping) = score"
  proof (rule Max_eqI)
    show "finite (?score ` set mapping)" by simp
    show "y \<le> score" if "y \<in> ?score ` set mapping" for y using that ub by auto
    show "score \<in> ?score ` set mapping" using key by (auto simp: score)
  qed
  moreover have "find (\<lambda>v. py_in (normalize_name q) (normalize_name (title v))) (map snd mapping) = None"
    using miss by (auto simp: find_None_iff)
  ultimately show ?thesis using lt by (simp add: get_cik_unfold e)
qed

text \<open>On the empty registry the unpacking of \<open>None\<close> fails.\<close>

lemma get_cik_empty: "get_cik sc q [] = Inl TypeError"
  by (simp add: get_cik_unfold extractOne_Nil)

subsection \<open>Registries keyed by position\<close>

text \<open>
  \<open>str\<close> is injective on the naturals, so the keys \<open>"0", "1", ...\<close> of the SEC file
  are distinct and \<open>mapping[str(key)]\<close> is the entry at position \<open>key\<close>.  On such a
  registry the fuzzy branch returns the identifier of the first best entry, and every
  call on a non-empty registry returns an identifier or fails with \<open>NotFound\<close>.
\<close>

lemma str_nat_value: "foldl (\<lambda>a c. 10 * a + nat (ord c - 48)) 0 (str_nat n) = n"
proof (induction n rule: str_nat.induct)
  case (1 n)
  show ?case
  proof (cases "n < 10")
    case True
    then have o: "ord (chr (48 + int n)) = 48 + int n" by (intro ord_chr) simp_all
    from True have "str_nat n = [chr (48 + int n)]" by (subst str_nat.simps) simp
    then show ?thesis by (simp add: o)
  next
    case False
    have o: "ord (chr (48 + int (n mod 10))) = 48 + int (n mod 10)"
      by (intro ord_chr) simp_all
    from False have u: "str_nat n = str_nat (n div 10) @ [chr (48 + int (n mod 10))]"
      by (subst str_nat.simps) simp
    from 1 False have ih: "foldl (\<lambda>a c. 10 * a + nat (ord c - 48)) 0 (str_nat (n div 10)) = n div 10"
      by simp
    show ?thesis unfolding u by (simp add: ih o)
  qed
qed

lemma str_nat_inj: "str_nat m = str_nat n \<Longrightarrow> m = n"
  by (metis str_nat_value)

lemma map_of_indexed:
  assumes keys: "map fst mapping = map str_nat [0..<length mapping]" and i: "i < length mapping"
  shows "map_of mapping (str_nat i) = Some (snd (mapping ! i))"
proof -
  have "distinct (map str_nat [0..<length mapping])"
    by (simp add: distinct_map inj_on_def) (blast dest: str_nat_inj)
  then have d: "distinct (map fst mapping)" by (simp add: keys)
  have "fst (mapping ! i) = map fst mapping ! i" using i by simp
  also have "\<dots> = str_nat i" using i by (simp add: keys)
  finally have "(str_nat i, snd (mapping ! i)) \<in> set mapping"
    using i by (metis nth_mem prod.collapse)
  with d show ?thesis by (rule map_of_is_SomeI)
qed

lemma get_cik_fuzzy_indexed:
  assumes keys: "map fst mapping = map str_nat [0..<length mapping]"
    and i: "i < length mapping"
    and hi: "85 \<le> sc (normalize_name q) (normalize_name (title (snd (mapping ! i))))"
    and best: "\<forall>e \<in> set mapping. sc (normalize_name q) (normalize_name (title (snd e)))
                 \<le> sc (normalize_name q) (normalize_name (title (snd (mapping ! i))))"
    and first: "\<forall>j < i. sc (normalize_name q) (normalize_name (title (snd (mapping ! j))))
                 < sc (normalize_name q) (normalize_name (title (snd (mapping ! i))))"
  shows "get_cik sc q mapping = Inr (zfill 10 (py_str (cik_str (snd (mapping ! i)))))"
proof -
  let ?score = "\<lambda>e. sc (normalize_name q) (normalize_name (title (snd e)))"
  from i have ne: "mapping \<noteq> []" by auto
  from extractOne_titles [OF ne, of sc "normalize_name q"]
  obtain b s k where
    e: "extractOne sc (normalize_name q) (map (\<lambda>e. normalize_name (title (snd e))) mapping)
          = Some (b, s, k)"
    and k: "k < length mapping"
    and s: "s = ?score (mapping ! k)"
    and ub: "\<forall>e \<in> set mapping. ?score e \<le> s"
    and fst: "\<forall>j < k. ?score (mapping ! j) < s"
    by metis
  have "?score (mapping ! i) \<le> s" using ub i by simp
  moreover have "s \<le> ?score (mapping ! i)" using best k by (simp add: s)
  ultimately have eq: "s = ?score (mapping ! i)" by simp
  have "k = i"
  proof (rule ccontr)
    assume "k \<noteq> i"
    then consider "k < i" | "i < k" by arith
    then show False
    proof cases
      case 1 with first eq s show False by auto
    next
      case 2 with fst eq show False by auto
    qed
  qed
  with hi eq show ?thesis
    by (simp add: get_cik_unfold e map_of_indexed [OF keys i])
qed

lemma get_cik_indexed_returns:
  assumes keys: "map fst mapping = map str_nat [0..<length mapping]" and ne: "mapping \<noteq> []"
  shows "(\<exists>e \<in> set mapping. get_cik sc q mapping = Inr (zfill 10 (py_str (cik_str (snd e)))))
         \<or> (\<exists>score. get_cik sc q mapping = Inl (NotFound score))"
proof -
  from extractOne_titles [OF ne, of sc "normalize_name q"]
  obtain b s k where
    e: "extractOne sc (normalize_name q) (map (\<lambda>e. normalize_name (title (snd e))) mapping)
          = Some (b, s, k)"
    and k: "k < length mapping"
    by metis
  show ?thesis
  proof (cases "85 \<le> s")
    case True
    then have "get_cik sc q mapping = Inr (zfill 10 (py_str (cik_str (snd (mapping ! k)))))"
      by (simp add: get_cik_unfold e map_of_indexed [OF keys k])
    with k show ?thesis by (metis nth_mem)
  next
    case False
    show ?thesis
    proof (cases "find (\<lambda>v. py_in (normalize_name q) (normalize_name (title v))) (map snd mapping)")
      case None
      with False show ?thesis by (simp add: get_cik_unfold e)
    next
      case (Some v)
      then have "v \<in> snd ` set mapping" by (auto simp: find_Some_iff)
      with Some False show ?thesis by (auto simp: get_cik_unfold e)
    qed
  qed
qed

subsection \<open>The routines on the example registries\<close>

lemma zfill_microsoft: "zfill 10 (py_str 789019) = ''0000789019''"
  by (simp add: zfill_def py_str_def str_nat.simps) code_simp

lemma zfill_apple: "zfill 10 (py_str 320193) = ''0000320193''"
  by (simp add: zfill_def py_str_def str_nat.simps) code_simp

lemma zfill_small: "zfill 10 (py_str 1) = ''0000000001''" "zfill 10 (py_str 2) = ''0000000002''"
  by code_simp+

lemma str_nat_small: "str_nat 0 = ''0''" "str_nat 1 = ''1''" "str_nat (Suc 0) = ''1''"
  by code_simp+

lemma normalize_examples:
  "normalize_name ''Apple Inc.'' = ''apple''"
  "normalize_name ''Microsoft Corporation'' = ''microsoft''"
  "normalize_name ''Microsoft Corp'' = ''microsoft''"
  "normalize_name ''Micro'' = ''micro''"
  "normalize_name ''NoSuchCompany XYZ'' = ''nosuchcompany xyz''"
  "normalize_name ''Apple Inc'' = ''apple''"
  "normalize_name ''Apple'' = ''apple''"
  by code_simp+

text \<open>Claim C2 on the registry of the specification: the query \<open>Micro\<close> scores below 85
  against both titles and is contained in the second.\<close>

theorem get_cik_substring_fallback_witness:
  "get_cik token_sort_ratio ''Micro'' spec_registry = Inr ''0000789019''"
proof -
  have s: "token_sort_ratio ''micro'' ''apple'' < 85" "token_sort_ratio ''micro'' ''microsoft'' < 85"
    by code_simp+
  have p: "py_in ''micro'' ''microsoft''" "\<not> py_in ''micro'' ''apple''"
    by code_simp+
  have h1: "\<forall>e \<in> set spec_registry.
      token_sort_ratio (normalize_name ''Micro'') (normalize_name (title (snd e))) < 85"
    by (simp add: spec_registry_def normalize_examples s)
  have h2: "1 < length spec_registry" by (simp add: spec_registry_def)
  have h3: "py_in (normalize_name ''Micro'') (normalize_name (title (snd (spec_registry ! 1))))"
    by (simp add: spec_registry_def normalize_examples p)
  have h4: "\<forall>j < 1. \<not> py_in (normalize_name ''Micro'') (normalize_name (title (snd (spec_registry ! j))))"
    by (simp add: spec_registry_def normalize_examples p)
  have r: "zfill 10 (py_str (cik_str (snd (spec_registry ! 1)))) = ''0000789019''"
    by (simp add: spec_registry_def zfill_microsoft)
  from get_cik_substring_fallback
         [where sc = token_sort_ratio and q = "''Micro''" and mapping = spec_registry and i = 1,
          OF h1 h2 h3 h4]
  show ?thesis by (simp only: r)
qed

text \<open>Claim C3 on the registry of the specification.\<close>

theorem get_cik_not_found_witness:
  "get_cik token_sort_ratio ''NoSuchCompany XYZ'' spec_registry = Inl (NotFound (300 / 13))"
proof -
  have s: "token_sort_ratio ''nosuchcompany xyz'' ''apple'' = 100 / 11"
    "token_sort_ratio ''nosuchcompany xyz'' ''microsoft'' = 300 / 13"
    by code_simp+
  have p: "\<not> py_in ''nosuchcompany xyz'' ''microsoft''" "\<not> py_in ''nosuchcompany xyz'' ''apple''"
    by code_simp+
  have h1: "spec_registry \<noteq> []" by (simp add: spec_registry_def)
  have h2: "\<forall>e \<in> set spec_registry.
      token_sort_ratio (normalize_name ''NoSuchCompany XYZ'') (normalize_name (title (snd e))) < 85"
    by (simp add: spec_registry_def normalize_examples s)
  have h3: "\<forall>e \<in> set spec_registry.
      \<not> py_in (normalize_name ''NoSuchCompany XYZ'') (normalize_name (title (snd e)))"
    by (simp add: spec_registry_def normalize_examples p)
  have r: "Max ((\<lambda>e. token_sort_ratio (normalize_name ''NoSuchCompany XYZ'')
                   (normalize_name (title (snd e)))) ` set spec_registry) = 300 / 13"
    by (simp add: spec_registry_def normalize_examples s)
  from get_cik_not_found
         [where sc = token_sort_ratio and q = "''NoSuchCompany XYZ''" and mapping = spec_registry,
          OF h1 h2 h3]
  show ?thesis by (simp only: r)
qed

text \<open>
  Claim C1, on the code.  On the registry of the specification, keyed by identifier, the
  query \<open>Microsoft Corp\<close> scores 100 against the second title; the code then looks the
  position \<open>1\<close> up among the keys and raises \<open>KeyError\<close> instead of returning
  \<open>0000789019\<close>.
\<close>

theorem get_cik_key_error:
  "get_cik token_sort_ratio ''Microsoft Corp'' spec_registry = Inl (KeyError ''1'')"
proof -
  have e: "extractOne token_sort_ratio ''microsoft'' [''apple'', ''microsoft'']
             = Some (''microsoft'', 100, 1)"
    by code_simp
  show ?thesis
    by (simp add: get_cik_unfold spec_registry_def normalize_examples e str_nat_small)
qed

text \<open>
  Claim C10, on the code.  On a non-empty registry keyed by ticker the call neither
  returns an identifier nor fails with \<open>NotFound\<close>: it raises \<open>KeyError\<close>; on the empty
  registry it raises \<open>TypeError\<close>.
\<close>

theorem get_cik_ticker_key_error:
  "get_cik token_sort_ratio ''Apple Inc'' ticker_registry = Inl (KeyError ''0'')
   \<and> get_cik token_sort_ratio ''Apple Inc'' [] = Inl TypeError"
proof -
  have e: "extractOne token_sort_ratio ''apple'' [''apple''] = Some (''apple'', 100, 0)"
    by code_simp
  show ?thesis
    by (simp add: get_cik_unfold ticker_registry_def normalize_examples e str_nat_small
          extractOne_Nil)
qed

text \<open>
  Claim C7, on the code.  On two entries of the SEC file the bootstrap routine resolves
  \<open>Microsoft Corp\<close> and the routine of the daily update, which compares the raw strings
  and has no substring fallback, fails with the best score 80.
\<close>

theorem get_cik_differ:
  "get_cik token_sort_ratio ''Microsoft Corp'' sec_registry = Inr ''0000789019''
   \<and> daily_get_cik token_sort_ratio ''Microsoft Corp'' sec_registry = Inl (NotFound 80)"
proof -
  have e: "extractOne token_sort_ratio ''microsoft'' [''apple'', ''microsoft'']
             = Some (''microsoft'', 100, 1)"
    by code_simp
  have d: "extractOne token_sort_ratio ''Microsoft Corp'' [''Apple Inc.'', ''Microsoft Corporation'']
             = Some (''Microsoft Corporation'', 80, 1)"
    by code_simp
  have l: "py_lower ''Apple Inc.'' \<noteq> py_lower ''Microsoft Corp''"
    "py_lower ''Microsoft Corporation'' \<noteq> py_lower ''Microsoft Corp''"
    by code_simp+
  have "get_cik token_sort_ratio ''Microsoft Corp'' sec_registry = Inr ''0000789019''"
    by (simp add: get_cik_unfold sec_registry_def normalize_examples e str_nat_small
          zfill_microsoft)
  moreover have "daily_get_cik token_sort_ratio ''Microsoft Corp'' sec_registry = Inl (NotFound 80)"
    by (simp add: daily_get_cik_def sec_registry_def l d)
  ultimately show ?thesis by simp
qed

text \<open>The two routines also disagree whatever the scorer is: the daily update returns
  the entry whose title is the query, the bootstrap routine the first of the two entries
  of the same normal form.\<close>

lemma resolution_differs_for_any_scorer:
  "get_cik sc ''Apple'' twin_registry = Inr ''0000000001''
   \<and> daily_get_cik sc ''Apple'' twin_registry = Inr ''0000000002''"
proof -
  have e: "extractOne sc ''apple'' [''apple'', ''apple''] = Some (''apple'', sc ''apple'' ''apple'', 0)"
    by (simp add: extractOne_def)
  have p: "py_in ''apple'' ''apple''" by code_simp
  have l: "py_lower ''Apple Inc'' \<noteq> py_lower ''Apple''" by code_simp
  have "get_cik sc ''Apple'' twin_registry = Inr ''0000000001''"
    by (simp add: get_cik_unfold twin_registry_def normalize_examples e str_nat_small
          zfill_small p)
  moreover have "daily_get_cik sc ''Apple'' twin_registry = Inr ''0000000002''"
    by (simp add: daily_get_cik_def twin_registry_def l zfill_small)
  ultimately show ?thesis by simp
qed

section \<open>Properties of the extraction and the merge\<close>

lemma pick_items_window:
  "pick_items cutoff items = Inr obs \<Longrightarrow> \<forall>ob \<in> set obs. cutoff \<le> year ob"
  by (induction items arbitrary: obs) (auto split: sum.splits if_splits)

lemma dict_display_keys:
  "dict_display kvs = Inr d \<Longrightarrow> map fst d = map fst kvs"
  by (induction kvs arbitrary: d rule: dict_display.induct) (auto split: sum.splits)

lemma dict_display_values:
  "dict_display kvs = Inr d \<Longrightarrow> (k, v) \<in> set d \<Longrightarrow> (k, Inr v) \<in> set kvs"
proof (induction kvs arbitrary: d)
  case Nil
  then show ?case by simp
next
  case (Cons kv kvs)
  obtain k' r where kv: "kv = (k', r)" by (cases kv)
  from Cons.prems(1) obtain v' d' where r: "r = Inr v'" and d': "dict_display kvs = Inr d'"
    and d: "d = (k', v') # d'"
    by (auto simp: kv split: sum.splits)
  from Cons.prems(2) d consider "(k, v) = (k', v')" | "(k, v) \<in> set d'" by auto
  then show ?case
  proof cases
    case 1 with kv r show ?thesis by simp
  next
    case 2 with Cons.IH [OF d'] show ?thesis by simp
  qed
qed

lemma extract_facts_window:
  assumes "extract_facts today_year r = Inr d"
  shows "map fst d = [''Revenue'', ''NetIncome'', ''OperatingCashFlow'', ''Assets'',
                      ''Liabilities'', ''Equity'']
         \<and> (\<forall>(metric, obs) \<in> set d. \<forall>ob \<in> set obs. today_year - 5 \<le> year ob)"
proof -
  from assms obtain f gaap where
    d: "dict_display (map (\<lambda>(metric, name). (metric, pick_items (today_year - 5) (usd_items gaap name)))
          metric_concepts) = Inr d"
    by (auto simp: extract_facts_def Let_def split: option.splits)
  from dict_display_keys [OF d] have "map fst d = map fst metric_concepts"
    by (simp add: comp_def case_prod_unfold)
  moreover have "today_year - 5 \<le> year ob" if "(metric, obs) \<in> set d" "ob \<in> set obs" for metric obs ob
  proof -
    from dict_display_values [OF d that(1)]
    obtain name where "pick_items (today_year - 5) (usd_items gaap name) = Inr obs" by auto
    from pick_items_window [OF this] that(2) show ?thesis by simp
  qed
  ultimately show ?thesis by (auto simp: metric_concepts_def)
qed

lemma latest_years_keys:
  assumes "latest_years r = Inr d"
  shows "map fst d = [''Revenue'', ''NetIncome'', ''OperatingCashFlow'', ''Assets'',
                      ''Liabilities'', ''Equity'']"
proof -
  from assms dict_display_keys have "map fst d = map fst metric_concepts"
    by (fastforce simp: latest_years_def Let_def comp_def case_prod_unfold)
  then show ?thesis by (simp add: metric_concepts_def)
qed

text \<open>
  Claim C8, on the code.  With an item of 2010 in the payload and the year 2025, the
  extraction of the bootstrap script drops the item and the extraction of the daily
  update keeps it; both return the six metric keys.
\<close>

theorem facts_window_differ:
  "extract_facts 2025 old_response =
     Inr [(''Revenue'', [\<lparr>year = 2023, val = 7\<rparr>]), (''NetIncome'', []),
          (''OperatingCashFlow'', []), (''Assets'', []), (''Liabilities'', []), (''Equity'', [])]
   \<and> latest_years old_response =
     Inr [(''Revenue'', [(2010, 5), (2023, 7)]), (''NetIncome'', []),
          (''OperatingCashFlow'', []), (''Assets'', []), (''Liabilities'', []), (''Equity'', [])]"
proof -
  have y: "py_int ''2010'' = Inr 2010" "py_int ''2023'' = Inr 2023"
    by code_simp+
  show ?thesis
    by (simp add: extract_facts_def latest_years_def old_response_def metric_concepts_def
          usd_items_def item_year_def y)
qed

lemma get_metric_append:
  "get_metric (append_observation fin m ob) m' =
     (if m' = m then get_metric fin m @ [ob] else get_metric fin m')"
  by (simp add: append_observation_def get_metric_def)

lemma merge_vals_same:
  "get_metric (merge_vals known m vals fin) m =
     get_metric fin m @
     map (\<lambda>(y, v). \<lparr>year = y, val = v\<rparr>) (filter (\<lambda>(y, v). y \<notin> set known) vals)"
  by (induction known m vals fin rule: merge_vals.induct) (simp_all add: get_metric_append)

lemma merge_vals_other:
  "m' \<noteq> m \<Longrightarrow> get_metric (merge_vals known m vals fin) m' = get_metric fin m'"
  by (induction known m vals fin rule: merge_vals.induct) (simp_all add: get_metric_append)

lemma merge_updated_other:
  "metric \<notin> fst ` set updated \<Longrightarrow>
     get_metric (merge_updated updated fin) metric = get_metric fin metric"
  by (induction updated fin rule: merge_updated.induct) (auto simp: merge_vals_other)

text \<open>
  Claim C9.  For every stored record and every metric, after the merge the list of the
  metric is the stored list, unchanged, followed by the fetched observations of that
  metric whose year is not a year of the stored list, in the order fetched; for a metric
  that was not fetched the list is the stored one.
\<close>

theorem merge_updated_appends:
  assumes "distinct (map fst updated)"
  shows "get_metric (merge_updated updated financials) metric =
           get_metric financials metric @
           (case map_of updated metric of
              None \<Rightarrow> []
            | Some vals \<Rightarrow>
                map (\<lambda>(y, v). \<lparr>year = y, val = v\<rparr>)
                  (filter (\<lambda>(y, v). y \<notin> set (map year (get_metric financials metric))) vals))"
  using assms
proof (induction updated financials rule: merge_updated.induct)
  case (1 financials)
  show ?case by simp
next
  case (2 m vals updated financials)
  let ?fin = "merge_vals (map year (get_metric financials m)) m vals financials"
  show ?case
  proof (cases "metric = m")
    case True
    with 2(2) have "metric \<notin> fst ` set updated" by auto
    then have "get_metric (merge_updated updated ?fin) metric = get_metric ?fin metric"
      by (rule merge_updated_other)
    with True show ?thesis by (simp add: merge_vals_same)
  next
    case False
    then have same: "get_metric ?fin metric = get_metric financials metric"
      by (rule merge_vals_other)
    from 2 have "get_metric (merge_updated updated ?fin) metric =
           get_metric ?fin metric @
           (case map_of updated metric of
              None \<Rightarrow> []
            | Some vals \<Rightarrow>
                map (\<lambda>(y, v). \<lparr>year = y, val = v\<rparr>)
                  (filter (\<lambda>(y, v). y \<notin> set (map year (get_metric ?fin metric))) vals))"
      by simp
    with False show ?thesis by (simp add: same cong: option.case_cong)
  qed
qed

text \<open>Claim C9 on a record that holds the year 2023: the fetched value of 2023 is
  skipped, the one of 2024 appended.\<close>

theorem merge_updated_appends_witness:
  "get_metric
     (merge_updated [(''Revenue'', [(2023, 7), (2024, 9 :: int)])]
        [''Revenue'' \<mapsto> [\<lparr>year = 2023, val = 6\<rparr>]]) ''Revenue''
   = [\<lparr>year = 2023, val = 6\<rparr>, \<lparr>year = 2024, val = 9\<rparr>]"
  using merge_updated_appends
    [of "[(''Revenue'', [(2023, 7), (2024, 9 :: int)])]"
        "[''Revenue'' \<mapsto> [\<lparr>year = 2023, val = 6\<rparr>]]" "''Revenue''"]
  by (simp add: get_metric_def)

end
